theory Spec2Isabelle
  imports Main "HOL-Library.Multiset"
begin

text \<open>
  Direct messages of the campus marketplace: how \<^verbatim>\<open>ItemDetail\<close> finds or creates
  the one conversation between a buyer and a seller, and how \<^verbatim>\<open>Messages\<close> lists
  conversations, loads and receives messages, and sends them. The hosted store is
  modelled by the two tables and by the requests the code issues; everything else
  follows the handlers of the two components.
\<close>

section \<open>Data model\<close>

text \<open>
  The two tables the messaging code works on, as declared by \<^verbatim>\<open>chatSetupSQL\<close> in
  \<^verbatim>\<open>Messages\<close>: a conversation row has an id, a creation time, a nullable listing
  reference and a directional (buyer, seller) pair; a message row has an id, a creation
  time, its conversation, its sender and its text. Identifiers are strings (uuids),
  creation times are points on a discrete clock.
\<close>

type_synonym uuid = string
type_synonym timestamp = nat

record conv_row =
  conv_id :: uuid
  conv_created_at :: timestamp
  listing_id :: "uuid option"
  buyer_id :: uuid
  seller_id :: uuid

record msg_row =
  msg_id :: uuid
  msg_created_at :: timestamp
  conversation_id :: uuid
  sender_id :: uuid
  msg_text :: string

record store =
  conversations_tbl :: "conv_row list"
  messages_tbl :: "msg_row list"

text \<open>
  What the hosted service contributes to one request is outside the program: whether the
  request fails (with which message and code), and the id and timestamp it assigns to an
  inserted row. One \<open>reply\<close> carries these for one request.
\<close>

record store_error =
  err_message :: string
  err_code :: string

record reply =
  fault :: "store_error option"
  assigned_id :: uuid
  server_now :: timestamp

section \<open>The store requests the code issues\<close>

text \<open>
  \<^verbatim>\<open>from('conversations').select(..).or(`buyer_id.eq.${u},seller_id.eq.${u}`)\<close>:
  the rows in which \<open>u\<close> is buyer or seller, in table order.
\<close>

definition select_conversations :: "reply \<Rightarrow> uuid \<Rightarrow> store \<Rightarrow> store_error + conv_row list" where
  "select_conversations r u s =
     (case fault r of
        Some e \<Rightarrow> Inl e
      | None \<Rightarrow> Inr (filter (\<lambda>c. buyer_id c = u \<or> seller_id c = u) (conversations_tbl s)))"

text \<open>
  The same query followed by \<^verbatim>\<open>.order('created_at', { ascending: false })\<close>:
  newest first.
\<close>

definition select_conversations_newest_first ::
  "reply \<Rightarrow> uuid \<Rightarrow> store \<Rightarrow> store_error + conv_row list" where
  "select_conversations_newest_first r u s =
     (case select_conversations r u s of
        Inl e \<Rightarrow> Inl e
      | Inr rows \<Rightarrow> Inr (rev (sort_key conv_created_at rows)))"

text \<open>
  \<^verbatim>\<open>from('conversations').insert({listing_id, buyer_id, seller_id}).select().single()\<close>:
  on success the row is appended with the id and creation time the server assigns, and
  is returned; on failure nothing is written.
\<close>

definition insert_conversation ::
  "reply \<Rightarrow> uuid \<Rightarrow> uuid \<Rightarrow> uuid \<Rightarrow> store \<Rightarrow> (store_error + conv_row) \<times> store" where
  "insert_conversation r listing buyer seller s =
     (case fault r of
        Some e \<Rightarrow> (Inl e, s)
      | None \<Rightarrow>
          (let created = \<lparr>conv_id = assigned_id r, conv_created_at = server_now r,
                          listing_id = Some listing, buyer_id = buyer, seller_id = seller\<rparr>
           in (Inr created, s\<lparr>conversations_tbl := conversations_tbl s @ [created]\<rparr>)))"

text \<open>
  \<^verbatim>\<open>from('messages').select('*').eq('conversation_id', c).order('created_at', { ascending: true })\<close>:
  the messages of conversation \<open>c\<close>, oldest first.
\<close>

definition select_messages :: "reply \<Rightarrow> uuid \<Rightarrow> store \<Rightarrow> store_error + msg_row list" where
  "select_messages r c s =
     (case fault r of
        Some e \<Rightarrow> Inl e
      | None \<Rightarrow>
          Inr (sort_key msg_created_at (filter (\<lambda>m. conversation_id m = c) (messages_tbl s))))"

text \<open>
  \<^verbatim>\<open>from('messages').insert({conversation_id, sender_id, text})\<close>: on success the
  row is appended with the id and creation time the server assigns.
\<close>

definition insert_message ::
  "reply \<Rightarrow> uuid \<Rightarrow> uuid \<Rightarrow> string \<Rightarrow> store \<Rightarrow> store_error option \<times> store" where
  "insert_message r c sender txt s =
     (case fault r of
        Some e \<Rightarrow> (Some e, s)
      | None \<Rightarrow>
          (None, s\<lparr>messages_tbl := messages_tbl s @
             [\<lparr>msg_id = assigned_id r, msg_created_at = server_now r, conversation_id = c,
               sender_id = sender, msg_text = txt\<rparr>]\<rparr>))"

section \<open>JavaScript values\<close>

text \<open>
  \<^verbatim>\<open>!x\<close> for an optional string (\<^verbatim>\<open>session?.user?.id\<close>,
  \<^verbatim>\<open>initialConversationId\<close>): the value is missing, or it is the empty string.
\<close>

fun falsy :: "string option \<Rightarrow> bool" where
  "falsy None = True"
| "falsy (Some u) = (u = [])"

text \<open>
  \<^verbatim>\<open>String.prototype.trim\<close>: white space and line terminators are removed at
  both ends. A \<^typ>\<open>char\<close> is one of the code points 0 to 255; the white space among
  them is tab, line feed, vertical tab, form feed, carriage return, space and
  no-break space.
\<close>

definition is_ws :: "char \<Rightarrow> bool" where
  "is_ws c \<longleftrightarrow> of_char c \<in> {9, 10, 11, 12, 13, 32, 160 :: nat}"

definition trim :: "string \<Rightarrow> string" where
  "trim s = rev (dropWhile is_ws (rev (dropWhile is_ws s)))"

section \<open>ItemDetail: handleMessageSeller\<close>

text \<open>
  The listing a detail page shows (\<^verbatim>\<open>item.id\<close>, \<^verbatim>\<open>item.seller_id\<close>) and what the
  handler does to its surroundings: it calls \<^verbatim>\<open>onMessage(id)\<close> or it raises an alert.
\<close>

record item =
  item_id :: uuid
  item_seller_id :: uuid

datatype ui_effect = OnMessage uuid | Alert string

fun is_alert :: "ui_effect \<Rightarrow> bool" where
  "is_alert (Alert _) = True"
| "is_alert (OnMessage _) = False"

text \<open>The predicate of \<^verbatim>\<open>found?.find(conv => ...)\<close>, with both directions.\<close>

definition is_dm :: "uuid \<Rightarrow> uuid \<Rightarrow> conv_row \<Rightarrow> bool" where
  "is_dm me other conv \<longleftrightarrow>
     (buyer_id conv = me \<and> seller_id conv = other) \<or>
     (buyer_id conv = other \<and> seller_id conv = me)"

text \<open>\<^verbatim>\<open>alert('Could not start chat: ' + (err.message || 'Unknown error'))\<close>\<close>

definition start_chat_alert :: "store_error \<Rightarrow> ui_effect" where
  "start_chat_alert err =
     Alert (''Could not start chat: '' @
            (if err_message err = [] then ''Unknown error'' else err_message err))"

text \<open>
  The handler takes the session's user id, the item, the \<^verbatim>\<open>isMessaging\<close> flag, the
  server's replies to its two requests and the store; it returns the callbacks it made,
  the flag as it leaves it, and the store. The guard returns before the
  \<^verbatim>\<open>try\<close>, so it leaves the flag alone; every other path runs the
  \<^verbatim>\<open>finally\<close> block, which clears it.
\<close>

fun handleMessageSeller ::
  "uuid option \<Rightarrow> item \<Rightarrow> bool \<Rightarrow> reply \<Rightarrow> reply \<Rightarrow> store \<Rightarrow> ui_effect list \<times> bool \<times> store" where
  "handleMessageSeller None it isMessaging rfind rcreate s = ([], isMessaging, s)"
| "handleMessageSeller (Some me) it isMessaging rfind rcreate s =
     (if falsy (Some me) \<or> isMessaging then ([], isMessaging, s)
      else
        (case select_conversations rfind me s of
           Inl findError \<Rightarrow> ([start_chat_alert findError], False, s)
         | Inr found \<Rightarrow>
             (case find (is_dm me (item_seller_id it)) found of
                Some existingDM \<Rightarrow> ([OnMessage (conv_id existingDM)], False, s)
              | None \<Rightarrow>
                  (case insert_conversation rcreate (item_id it) me (item_seller_id it) s of
                     (Inl createError, s') \<Rightarrow> ([start_chat_alert createError], False, s')
                   | (Inr created, s') \<Rightarrow> ([OnMessage (conv_id created)], False, s')))))"

section \<open>Messages: the component's state and handlers\<close>

text \<open>
  The \<^verbatim>\<open>Conversation\<close> of the view is a fetched row with the other participant
  written into it (\<^verbatim>\<open>{ ...conv, other_user_id: otherId }\<close>). Of the component's
  state, the caches of profile names and avatars are left out: nothing below reads them.
\<close>

record conversation = conv_row +
  other_user_id :: uuid

definition with_other :: "conv_row \<Rightarrow> uuid \<Rightarrow> conversation" where
  "with_other conv otherId = conv_row.extend conv (conversation.fields otherId)"

datatype error_type = ErrNone | TableMissing

record messages_view =
  conversations :: "conversation list"
  selectedConversation :: "conversation option"
  messages :: "msg_row list"
  inputValue :: string
  loading :: bool
  errorType :: error_type

definition initial_view :: messages_view where
  "initial_view = \<lparr>conversations = [], selectedConversation = None, messages = [],
                    inputValue = [], loading = True, errorType = ErrNone\<rparr>"

text \<open>
  The reducer of \<^verbatim>\<open>fetchConversations\<close>: a row whose other participant is the
  user is skipped; a row whose other participant is already in the accumulator is
  skipped; any other row is pushed at the end.
\<close>

definition other_of :: "uuid \<Rightarrow> conv_row \<Rightarrow> uuid" where
  "other_of userId conv = (if buyer_id conv = userId then seller_id conv else buyer_id conv)"

definition group_step :: "uuid \<Rightarrow> conversation list \<Rightarrow> conv_row \<Rightarrow> conversation list" where
  "group_step userId acc conv =
     (let otherId = other_of userId conv in
      if otherId = userId then acc
      else (case find (\<lambda>c. other_user_id c = otherId) acc of
              None \<Rightarrow> acc @ [with_other conv otherId]
            | Some alreadyExists \<Rightarrow> acc))"

definition grouped :: "uuid \<Rightarrow> conv_row list \<Rightarrow> conversation list" where
  "grouped userId data = foldl (group_step userId) [] data"

text \<open>
  The rows the reducer keeps, computed directly: a row is kept when its other
  participant is not the user and has not been seen in an earlier row.
\<close>

fun first_rows :: "uuid \<Rightarrow> uuid list \<Rightarrow> conv_row list \<Rightarrow> conv_row list" where
  "first_rows userId seen [] = []"
| "first_rows userId seen (conv # rest) =
     (if other_of userId conv = userId \<or> other_of userId conv \<in> set seen
      then first_rows userId seen rest
      else conv # first_rows userId (seen @ [other_of userId conv]) rest)"

text \<open>
  \<^verbatim>\<open>fetchConversations(userId)\<close>: an error with code 42P01 switches the view to the
  set-up screen; any error leaves the list alone; the \<^verbatim>\<open>finally\<close> block ends the
  loading state.
\<close>

definition fetchConversations :: "reply \<Rightarrow> uuid \<Rightarrow> store \<Rightarrow> messages_view \<Rightarrow> messages_view" where
  "fetchConversations r userId s v =
     (case select_conversations_newest_first r userId s of
        Inl error \<Rightarrow>
          v\<lparr>loading := False,
            errorType := (if err_code error = ''42P01'' then TableMissing else errorType v)\<rparr>
      | Inr data \<Rightarrow> v\<lparr>conversations := grouped userId data, loading := False\<rparr>)"

text \<open>
  \<^verbatim>\<open>fetchMessages(convId)\<close>: an error is logged and the list stays; otherwise the
  list is replaced by what the store returned.
\<close>

definition fetchMessages :: "reply \<Rightarrow> uuid \<Rightarrow> store \<Rightarrow> messages_view \<Rightarrow> messages_view" where
  "fetchMessages r convId s v =
     (case select_messages r convId s of
        Inl error \<Rightarrow> v
      | Inr data \<Rightarrow> v\<lparr>messages := data\<rparr>)"

text \<open>
  The callback of the INSERT subscription:
  \<^verbatim>\<open>setMessages(prev => prev.some(m => m.id === payload.new.id) ? prev : [...prev, payload.new])\<close>.
\<close>

definition on_insert :: "msg_row \<Rightarrow> messages_view \<Rightarrow> messages_view" where
  "on_insert payload_new v =
     v\<lparr>messages :=
         (if list_ex (\<lambda>m. msg_id m = msg_id payload_new) (messages v) then messages v
          else messages v @ [payload_new])\<rparr>"

text \<open>
  \<^verbatim>\<open>handleSendMessage\<close>. The result is \<open>Inl\<close> where the call would end in an error
  and \<open>Inr\<close> with the view and the store where it returns. The outcome of the insert is
  not looked at, and the message list is not touched.
\<close>

definition handleSendMessage ::
  "uuid option \<Rightarrow> reply \<Rightarrow> messages_view \<Rightarrow> store \<Rightarrow> store_error + (messages_view \<times> store)" where
  "handleSendMessage currentUserId r v s =
     (if trim (inputValue v) = [] \<or> selectedConversation v = None \<or> falsy currentUserId
      then Inr (v, s)
      else (case (selectedConversation v, currentUserId) of
              (Some sel, Some me) \<Rightarrow>
                Inr (v\<lparr>inputValue := []\<rparr>,
                     snd (insert_message r (conv_id sel) me (trim (inputValue v)) s))
            | _ \<Rightarrow> Inr (v, s)))"

section \<open>Messages: the mounted component, its subscription and its events\<close>

text \<open>
  A mounted \<^verbatim>\<open>Messages\<close> component with what surrounds it: the store, the view
  state, the channels this component has registered with the realtime client (handle
  and conversation filter), the next free handle, the channel the pending clean-up of
  the subscription effect will remove, and the \<^verbatim>\<open>fetchMessages\<close> requests that have
  not been answered yet. The realtime client is taken to invoke a callback only for
  a registered channel whose filter matches, and \<^verbatim>\<open>removeChannel\<close> to unregister.
\<close>

record page =
  db :: store
  ui :: messages_view
  channels :: "(nat \<times> uuid) list"
  next_channel :: nat
  cleanup :: "nat option"
  loads :: "uuid list"

definition initial_page :: "store \<Rightarrow> page" where
  "initial_page s = \<lparr>db = s, ui = initial_view, channels = [], next_channel = 0,
                     cleanup = None, loads = []\<rparr>"

text \<open>The clean-up returned by the subscription effect: \<^verbatim>\<open>supabase.removeChannel(channel)\<close>.\<close>

definition run_cleanup :: "page \<Rightarrow> page" where
  "run_cleanup p =
     (case cleanup p of
        None \<Rightarrow> p
      | Some h \<Rightarrow> p\<lparr>channels := filter (\<lambda>(h', c). h' \<noteq> h) (channels p), cleanup := None\<rparr>)"

text \<open>
  The body of the subscription effect: nothing without a selected conversation;
  otherwise the messages are requested and a new channel filtered on the conversation
  is subscribed.
\<close>

definition subscription_effect :: "page \<Rightarrow> page" where
  "subscription_effect p =
     (case selectedConversation (ui p) of
        None \<Rightarrow> p
      | Some sel \<Rightarrow>
          p\<lparr>loads := loads p @ [conv_id sel],
            channels := channels p @ [(next_channel p, conv_id sel)],
            next_channel := Suc (next_channel p),
            cleanup := Some (next_channel p)\<rparr>)"

text \<open>
  \<^verbatim>\<open>setSelectedConversation(next)\<close>: when \<open>next\<close> is the very value the state
  already holds (\<open>same\<close>), nothing happens; otherwise the state is set, the previous
  clean-up runs and then the effect.
\<close>

definition setSelectedConversation :: "bool \<Rightarrow> conversation option \<Rightarrow> page \<Rightarrow> page" where
  "setSelectedConversation same next p =
     (if same then p
      else subscription_effect (run_cleanup (p\<lparr>ui := (ui p)\<lparr>selectedConversation := next\<rparr>\<rparr>)))"

text \<open>
  A conversation handed to \<^verbatim>\<open>setSelectedConversation\<close> is compared with the selected
  one as an object: two conversations with the same fields are the same object or not.
  \<open>fresh\<close> says that the one handed over is another object than the selected one.
\<close>

definition select_chat :: "bool \<Rightarrow> conversation \<Rightarrow> page \<Rightarrow> page" where
  "select_chat fresh chat p =
     setSelectedConversation (\<not> fresh \<and> selectedConversation (ui p) = Some chat) (Some chat) p"

text \<open>The effect on \<^verbatim>\<open>currentUserId\<close>.\<close>

fun mount_effect :: "uuid option \<Rightarrow> reply \<Rightarrow> page \<Rightarrow> page" where
  "mount_effect None r p = p\<lparr>ui := (ui p)\<lparr>loading := False\<rparr>\<rparr>"
| "mount_effect (Some me) r p =
     (if falsy (Some me) then p\<lparr>ui := (ui p)\<lparr>loading := False\<rparr>\<rparr>
      else p\<lparr>ui := fetchConversations r me (db p) (ui p)\<rparr>)"

text \<open>The effect on \<^verbatim>\<open>initialConversationId\<close> and \<^verbatim>\<open>conversations\<close>.\<close>

fun initial_effect :: "uuid option \<Rightarrow> bool \<Rightarrow> page \<Rightarrow> page" where
  "initial_effect None fresh p = p"
| "initial_effect (Some initialConversationId) fresh p =
     (if falsy (Some initialConversationId) \<or> conversations (ui p) = [] then p
      else (case find (\<lambda>c. conv_id c = initialConversationId) (conversations (ui p)) of
              None \<Rightarrow> p
            | Some match \<Rightarrow> select_chat fresh match p))"

text \<open>The channels an INSERT event for a message is dispatched to.\<close>

definition targets :: "(nat \<times> uuid) list \<Rightarrow> msg_row \<Rightarrow> (nat \<times> uuid) list" where
  "targets chans m = filter (\<lambda>(h, c). conversation_id m = c) chans"

text \<open>
  What can happen to a mounted component. \<open>Loaded r snap\<close> is the answer to the oldest
  open \<^verbatim>\<open>fetchMessages\<close> request, computed by the server on the store \<open>snap\<close> as it
  was when the query ran. \<open>Server s\<close> is any change other clients make to the store.
  User events are accepted in every state, also where the element that raises
  them is not on screen, so the runs of the model include those of the component.
\<close>

datatype event =
    Mount reply
  | InitialConversation "uuid option" bool
  | ClickChat nat bool
  | Back
  | Typed string
  | Send reply
  | Loaded reply store
  | Push msg_row
  | Server store
  | Unmount

fun step :: "uuid option \<Rightarrow> page \<Rightarrow> event \<Rightarrow> page" where
  "step me p (Mount r) = mount_effect me r p"
| "step me p (InitialConversation init fresh) = initial_effect init fresh p"
| "step me p (ClickChat i fresh) =
     (if i < length (conversations (ui p))
      then select_chat fresh (conversations (ui p) ! i) p else p)"
| "step me p Back =
     setSelectedConversation (selectedConversation (ui p) = None) None p"
| "step me p (Typed txt) = p\<lparr>ui := (ui p)\<lparr>inputValue := txt\<rparr>\<rparr>"
| "step me p (Send r) =
     (case handleSendMessage me r (ui p) (db p) of
        Inl e \<Rightarrow> p
      | Inr (v, s) \<Rightarrow> p\<lparr>ui := v, db := s\<rparr>)"
| "step me p (Loaded r snap) =
     (case loads p of
        [] \<Rightarrow> p
      | convId # rest \<Rightarrow> p\<lparr>ui := fetchMessages r convId snap (ui p), loads := rest\<rparr>)"
| "step me p (Push m) =
     p\<lparr>ui := foldl (\<lambda>v ch. on_insert m v) (ui p) (targets (channels p) m)\<rparr>"
| "step me p (Server s) = p\<lparr>db := s\<rparr>"
| "step me p Unmount = (run_cleanup p)\<lparr>ui := initial_view, loads := []\<rparr>"

definition run :: "uuid option \<Rightarrow> page \<Rightarrow> event list \<Rightarrow> page" where
  "run me p evs = foldl (step me) p evs"

text \<open>
  What the view holds has been fetched for the signed-in user: that user is buyer or
  seller of every conversation in the list and of the selected one.
\<close>

fun participant :: "uuid option \<Rightarrow> conversation \<Rightarrow> bool" where
  "participant None c = False"
| "participant (Some u) c = (u \<noteq> [] \<and> (buyer_id c = u \<or> seller_id c = u))"

definition fetched_for :: "uuid option \<Rightarrow> messages_view \<Rightarrow> bool" where
  "fetched_for me v \<longleftrightarrow>
     list_all (participant me) (conversations v) \<and>
     (case selectedConversation v of None \<Rightarrow> True | Some sel \<Rightarrow> participant me sel)"

text \<open>
  The subscription follows the selection: without a selected conversation no channel
  is registered and no clean-up is pending; with one, exactly the channel the pending
  clean-up will remove is registered, filtered on that conversation. A handle is
  retired when it has been handed out and is not registered.
\<close>

definition wired :: "page \<Rightarrow> bool" where
  "wired p \<longleftrightarrow>
     (case (selectedConversation (ui p), cleanup p) of
        (None, None) \<Rightarrow> channels p = []
      | (Some sel, Some h) \<Rightarrow> h < next_channel p \<and> channels p = [(h, conv_id sel)]
      | _ \<Rightarrow> False)"

definition retired :: "nat \<Rightarrow> page \<Rightarrow> bool" where
  "retired h p \<longleftrightarrow> h < next_channel p \<and> h \<notin> fst ` set (channels p)"

text \<open>
  The messages table has a primary key on \<^verbatim>\<open>id\<close>: an event is \<open>keyed\<close> when the
  store a load was computed on respects it.
\<close>

fun keyed :: "event \<Rightarrow> bool" where
  "keyed (Loaded r snap) = distinct (map msg_id (messages_tbl snap))"
| "keyed _ = True"

section \<open>Sample data\<close>

text \<open>
  An inbox of alice as the store returns it, newest first: two rows with bob (one in
  each direction), a row from alice to alice, and a row with carol.
\<close>

definition inbox_rows :: "conv_row list" where
  "inbox_rows =
    [\<lparr>conv_id = ''c3'', conv_created_at = 3, listing_id = Some ''l2'', buyer_id = ''alice'', seller_id = ''bob''\<rparr>,
     \<lparr>conv_id = ''c2'', conv_created_at = 2, listing_id = Some ''l9'', buyer_id = ''bob'', seller_id = ''alice''\<rparr>,
     \<lparr>conv_id = ''c1'', conv_created_at = 1, listing_id = None, buyer_id = ''alice'', seller_id = ''alice''\<rparr>,
     \<lparr>conv_id = ''c0'', conv_created_at = 0, listing_id = None, buyer_id = ''carol'', seller_id = ''alice''\<rparr>]"

text \<open>
  A store with one conversation between alice and bob holding three messages, kept in
  the table out of order, and a message of another conversation.
\<close>

definition hello_store :: store where
  "hello_store = \<lparr>conversations_tbl =
        [\<lparr>conv_id = ''c1'', conv_created_at = 0, listing_id = Some ''l1'',
          buyer_id = ''alice'', seller_id = ''bob''\<rparr>],
      messages_tbl =
        [\<lparr>msg_id = ''m3'', msg_created_at = 9, conversation_id = ''c1'', sender_id = ''alice'', msg_text = ''ok''\<rparr>,
         \<lparr>msg_id = ''m1'', msg_created_at = 4, conversation_id = ''c1'', sender_id = ''alice'', msg_text = ''hello''\<rparr>,
         \<lparr>msg_id = ''mx'', msg_created_at = 5, conversation_id = ''c7'', sender_id = ''dave'', msg_text = ''yo''\<rparr>,
         \<lparr>msg_id = ''m2'', msg_created_at = 6, conversation_id = ''c1'', sender_id = ''bob'', msg_text = ''hi''\<rparr>]\<rparr>"

text \<open>The view of alice with that conversation open.\<close>

definition chat_view :: messages_view where
  "chat_view = initial_view
     \<lparr>conversations := [with_other (hd (conversations_tbl hello_store)) ''bob''],
      selectedConversation := Some (with_other (hd (conversations_tbl hello_store)) ''bob''),
      loading := False\<rparr>"

text \<open>
  A session of alice: the component mounts, the first conversation is opened, the load
  is answered, and the push of a message that the load already brought arrives. The
  page this leads to is written out; a later message of bob is at hand.
\<close>

definition ok_reply :: reply where
  "ok_reply = \<lparr>fault = None, assigned_id = ''m4'', server_now = 10\<rparr>"

definition late_message :: msg_row where
  "late_message = \<lparr>msg_id = ''m5'', msg_created_at = 12, conversation_id = ''c1'',
                    sender_id = ''bob'', msg_text = ''still there?''\<rparr>"

definition chat_events :: "event list" where
  "chat_events = [Mount ok_reply, ClickChat 0 False, Loaded ok_reply hello_store,
     Push \<lparr>msg_id = ''m2'', msg_created_at = 6, conversation_id = ''c1'', sender_id = ''bob'', msg_text = ''hi''\<rparr>]"

definition chat_page :: page where
  "chat_page = \<lparr>db = hello_store,
     ui = chat_view\<lparr>messages :=
       [\<lparr>msg_id = ''m1'', msg_created_at = 4, conversation_id = ''c1'', sender_id = ''alice'', msg_text = ''hello''\<rparr>,
        \<lparr>msg_id = ''m2'', msg_created_at = 6, conversation_id = ''c1'', sender_id = ''bob'', msg_text = ''hi''\<rparr>,
        \<lparr>msg_id = ''m3'', msg_created_at = 9, conversation_id = ''c1'', sender_id = ''alice'', msg_text = ''ok''\<rparr>]\<rparr>,
     channels = [(0, ''c1'')], next_channel = 1, cleanup = Some 0, loads = []\<rparr>"

text \<open>
  A store whose conversations table holds the rows of that inbox in another order,
  together with a conversation alice has no part in.
\<close>

definition inbox_store :: store where
  "inbox_store = \<lparr>conversations_tbl =
      [\<lparr>conv_id = ''c0'', conv_created_at = 0, listing_id = None, buyer_id = ''carol'', seller_id = ''alice''\<rparr>,
       \<lparr>conv_id = ''c8'', conv_created_at = 5, listing_id = None, buyer_id = ''dave'', seller_id = ''erin''\<rparr>,
       \<lparr>conv_id = ''c3'', conv_created_at = 3, listing_id = Some ''l2'', buyer_id = ''alice'', seller_id = ''bob''\<rparr>,
       \<lparr>conv_id = ''c1'', conv_created_at = 1, listing_id = None, buyer_id = ''alice'', seller_id = ''alice''\<rparr>,
       \<lparr>conv_id = ''c2'', conv_created_at = 2, listing_id = Some ''l9'', buyer_id = ''bob'', seller_id = ''alice''\<rparr>],
     messages_tbl = []\<rparr>"

text \<open>
  A session of alice on a slow connection: the component mounts, the first conversation
  is opened (the subscription is made, the load is requested), alice types and sends
  before the load is answered; then the push of the sent message arrives, and after it
  the answer of the load, computed on the store as it was before the send.
\<close>

definition sent_message :: msg_row where
  "sent_message = \<lparr>msg_id = ''m4'', msg_created_at = 10, conversation_id = ''c1'',
                    sender_id = ''alice'', msg_text = ''thanks''\<rparr>"

definition sending_events :: "event list" where
  "sending_events = [Mount ok_reply, ClickChat 0 False, Typed '' thanks '', Send ok_reply]"

definition stale_load_events :: "event list" where
  "stale_load_events = sending_events @ [Push sent_message, Loaded ok_reply hello_store]"

section \<open>Facts about the resolver\<close>

lemma find_filter_implied:
  assumes "\<And>x. P x \<Longrightarrow> Q x"
  shows "find P (filter Q xs) = find P xs"
  using assms by (induction xs) auto

lemma find_own_rows:
  "find (is_dm me other) (filter (\<lambda>c. buyer_id c = me \<or> seller_id c = me) xs)
     = find (is_dm me other) xs"
  by (rule find_filter_implied) (auto simp: is_dm_def)

lemma is_dm_commute: "is_dm a b = is_dm b a"
  by (auto simp: is_dm_def fun_eq_iff)

lemma find_append_new:
  "find P xs = None \<Longrightarrow> P r \<Longrightarrow> find P (xs @ [r]) = Some r"
  by (induction xs) (auto split: if_splits)

lemma find_None_iff_no_match: "find P xs = None \<longleftrightarrow> \<not> list_ex P xs"
  by (induction xs) auto

text \<open>
  The handler on a signed-in, idle page whose requests both succeed, as one equation:
  the first row of the table that joins the two users in either direction, or else a
  new row.
\<close>

lemma handleMessageSeller_ok:
  assumes "me \<noteq> []" "fault rfind = None" "fault rcreate = None"
  shows "handleMessageSeller (Some me) it False rfind rcreate s =
    (case find (is_dm me (item_seller_id it)) (conversations_tbl s) of
       Some c \<Rightarrow> ([OnMessage (conv_id c)], False, s)
     | None \<Rightarrow>
        ([OnMessage (assigned_id rcreate)], False,
         s\<lparr>conversations_tbl := conversations_tbl s @
            [\<lparr>conv_id = assigned_id rcreate, conv_created_at = server_now rcreate,
              listing_id = Some (item_id it), buyer_id = me,
              seller_id = item_seller_id it\<rparr>]\<rparr>))"
  using assms
  by (simp add: select_conversations_def insert_conversation_def find_own_rows Let_def
      split: option.splits)


declare handleMessageSeller.simps [simp del]

text \<open>
  After a successful call the store holds a row joining the two users, the first such
  row is the one whose id went to \<^verbatim>\<open>onMessage\<close>, and the store is the old one or
  the old one with that row appended.
\<close>

lemma resolved_row:
  assumes "me \<noteq> []" and "fault rfind = None" and "fault rcreate = None"
  shows "\<exists>c s1. find (is_dm me (item_seller_id it)) (conversations_tbl s1) = Some c
      \<and> (if list_ex (is_dm me (item_seller_id it)) (conversations_tbl s) then s1 = s
          else s1 = s\<lparr>conversations_tbl := conversations_tbl s @
                 [\<lparr>conv_id = assigned_id rcreate, conv_created_at = server_now rcreate,
                   listing_id = Some (item_id it), buyer_id = me,
                   seller_id = item_seller_id it\<rparr>]\<rparr>)
      \<and> handleMessageSeller (Some me) it False rfind rcreate s
            = ([OnMessage (conv_id c)], False, s1)"
proof (cases "find (is_dm me (item_seller_id it)) (conversations_tbl s)")
  case None
  let ?row = "\<lparr>conv_id = assigned_id rcreate, conv_created_at = server_now rcreate,
    listing_id = Some (item_id it), buyer_id = me, seller_id = item_seller_id it\<rparr>"
  let ?s1 = "s\<lparr>conversations_tbl := conversations_tbl s @ [?row]\<rparr>"
  have "is_dm me (item_seller_id it) ?row"
    by (simp add: is_dm_def)
  with None have "find (is_dm me (item_seller_id it)) (conversations_tbl ?s1) = Some ?row"
    by (simp add: find_append_new)
  moreover from None have "\<not> list_ex (is_dm me (item_seller_id it)) (conversations_tbl s)"
    by (simp add: find_None_iff_no_match)
  moreover from None have "handleMessageSeller (Some me) it False rfind rcreate s
      = ([OnMessage (conv_id ?row)], False, ?s1)"
    by (simp add: handleMessageSeller_ok [OF assms])
  ultimately show ?thesis
    by (intro exI [of _ ?row] exI [of _ ?s1]) simp
next
  case (Some c)
  then have "list_ex (is_dm me (item_seller_id it)) (conversations_tbl s)"
    using find_None_iff_no_match [of "is_dm me (item_seller_id it)" "conversations_tbl s"]
    by simp
  moreover from Some have "handleMessageSeller (Some me) it False rfind rcreate s
      = ([OnMessage (conv_id c)], False, s)"
    by (simp add: handleMessageSeller_ok [OF assms])
  ultimately show ?thesis
    using Some by (intro exI [of _ c] exI [of _ s]) simp
qed

lemma resolved_again:
  assumes "me \<noteq> []" and "fault rfind = None" and "fault rcreate = None"
    and "find (is_dm me (item_seller_id it)) (conversations_tbl s) = Some c"
  shows "handleMessageSeller (Some me) it False rfind rcreate s = ([OnMessage (conv_id c)], False, s)"
  using assms(4) by (simp add: handleMessageSeller_ok [OF assms(1-3)])

section \<open>Claims about the resolver\<close>

text \<open>
  C8, as stated: a call without a signed-in user fails with a NotAuthenticated error and
  performs no fetch or insert. The handler has one way of reporting a failure, the
  alert of its \<^verbatim>\<open>catch\<close> block; at a missing session it makes no callback at
  all, so no error is reported there.
\<close>

theorem no_session_reports_no_error:
  "\<not> list_ex is_alert
       (fst (handleMessageSeller None \<lparr>item_id = ''l1'', item_seller_id = ''bob''\<rparr> False
               \<lparr>fault = None, assigned_id = ''c1'', server_now = 1\<rparr>
               \<lparr>fault = None, assigned_id = ''c2'', server_now = 2\<rparr>
               \<lparr>conversations_tbl = [], messages_tbl = []\<rparr>))"
  by (simp add: handleMessageSeller.simps)

text \<open>
  C8, amended: whenever the session has no user id (absent or empty), the handler
  returns at its guard: it makes no callback and raises no alert, leaves the
  \<^verbatim>\<open>isMessaging\<close> flag as it was, and leaves the store untouched, whatever the
  server would have replied.
\<close>

theorem no_session_is_silent_noop:
  "falsy session \<Longrightarrow>
     handleMessageSeller session it isMessaging rfind rcreate s = ([], isMessaging, s)"
  by (cases session) (simp_all add: handleMessageSeller.simps)

theorem no_session_is_silent_noop_witness:
  "falsy (Some []) \<and>
   handleMessageSeller (Some []) \<lparr>item_id = ''l1'', item_seller_id = ''bob''\<rparr> False
      \<lparr>fault = None, assigned_id = ''c1'', server_now = 1\<rparr>
      \<lparr>fault = None, assigned_id = ''c2'', server_now = 2\<rparr>
      \<lparr>conversations_tbl = [], messages_tbl = []\<rparr>
    = ([], False, \<lparr>conversations_tbl = [], messages_tbl = []\<rparr>)"
  using no_session_is_silent_noop [of "Some []"] by simp

text \<open>
  C3: on a signed-in, idle page whose requests succeed, if some row of the table joins
  the current user and the seller (in either direction), the handler hands one such
  row's id to \<^verbatim>\<open>onMessage\<close> and the store is unchanged; if no row does, the store
  gains exactly one row, appended, with the current user as buyer, the seller as
  seller and the item as listing, and \<^verbatim>\<open>onMessage\<close> receives the id the server
  assigned to it.
\<close>

theorem resolve_finds_or_creates:
  assumes "me \<noteq> []" and "fault rfind = None" and "fault rcreate = None"
  shows "(list_ex (is_dm me (item_seller_id it)) (conversations_tbl s) \<longrightarrow>
            (\<exists>c \<in> set (conversations_tbl s). is_dm me (item_seller_id it) c \<and>
               handleMessageSeller (Some me) it False rfind rcreate s
                 = ([OnMessage (conv_id c)], False, s)))
       \<and> (\<not> list_ex (is_dm me (item_seller_id it)) (conversations_tbl s) \<longrightarrow>
            handleMessageSeller (Some me) it False rfind rcreate s
              = ([OnMessage (assigned_id rcreate)], False,
                 s\<lparr>conversations_tbl := conversations_tbl s @
                    [\<lparr>conv_id = assigned_id rcreate, conv_created_at = server_now rcreate,
                      listing_id = Some (item_id it), buyer_id = me,
                      seller_id = item_seller_id it\<rparr>]\<rparr>))"
proof (cases "find (is_dm me (item_seller_id it)) (conversations_tbl s)")
  case None
  then have "\<not> list_ex (is_dm me (item_seller_id it)) (conversations_tbl s)"
    by (simp add: find_None_iff_no_match)
  with None show ?thesis
    by (simp add: handleMessageSeller_ok [OF assms])
next
  case (Some c)
  then have "c \<in> set (conversations_tbl s)" "is_dm me (item_seller_id it) c"
    by (auto simp: find_Some_iff)
  moreover have "list_ex (is_dm me (item_seller_id it)) (conversations_tbl s)"
    using Some find_None_iff_no_match [of "is_dm me (item_seller_id it)" "conversations_tbl s"]
    by simp
  ultimately show ?thesis
    using Some by (auto simp: handleMessageSeller_ok [OF assms])
qed

theorem resolve_finds_or_creates_witness:
  "handleMessageSeller (Some ''alice'') \<lparr>item_id = ''l1'', item_seller_id = ''bob''\<rparr> False
      \<lparr>fault = None, assigned_id = ''x'', server_now = 1\<rparr>
      \<lparr>fault = None, assigned_id = ''c1'', server_now = 2\<rparr>
      \<lparr>conversations_tbl = [], messages_tbl = []\<rparr>
    = ([OnMessage ''c1''], False,
       \<lparr>conversations_tbl =
          [\<lparr>conv_id = ''c1'', conv_created_at = 2, listing_id = Some ''l1'',
            buyer_id = ''alice'', seller_id = ''bob''\<rparr>],
        messages_tbl = []\<rparr>)
   \<and> handleMessageSeller (Some ''alice'') \<lparr>item_id = ''l1'', item_seller_id = ''bob''\<rparr> False
        \<lparr>fault = None, assigned_id = ''x'', server_now = 1\<rparr>
        \<lparr>fault = None, assigned_id = ''c1'', server_now = 2\<rparr>
        \<lparr>conversations_tbl =
           [\<lparr>conv_id = ''c0'', conv_created_at = 0, listing_id = None,
             buyer_id = ''bob'', seller_id = ''alice''\<rparr>], messages_tbl = []\<rparr>
      = ([OnMessage ''c0''], False,
         \<lparr>conversations_tbl =
           [\<lparr>conv_id = ''c0'', conv_created_at = 0, listing_id = None,
             buyer_id = ''bob'', seller_id = ''alice''\<rparr>], messages_tbl = []\<rparr>)"
  using
    resolve_finds_or_creates [of "''alice''"
      "\<lparr>fault = None, assigned_id = ''x'', server_now = 1\<rparr>"
      "\<lparr>fault = None, assigned_id = ''c1'', server_now = 2\<rparr>"
      "\<lparr>item_id = ''l1'', item_seller_id = ''bob''\<rparr>"
      "\<lparr>conversations_tbl = [], messages_tbl = []\<rparr>"]
    resolve_finds_or_creates [of "''alice''"
      "\<lparr>fault = None, assigned_id = ''x'', server_now = 1\<rparr>"
      "\<lparr>fault = None, assigned_id = ''c1'', server_now = 2\<rparr>"
      "\<lparr>item_id = ''l1'', item_seller_id = ''bob''\<rparr>"
      "\<lparr>conversations_tbl =
             [\<lparr>conv_id = ''c0'', conv_created_at = 0, listing_id = None,
               buyer_id = ''bob'', seller_id = ''alice''\<rparr>], messages_tbl = []\<rparr>"]
  by (simp add: is_dm_def)

text \<open>
  C2: two calls in immediate sequence by the same signed-in user for the same seller
  (the listings may differ), all requests succeeding. After the first call the store
  holds a row joining the two users: it is the store as it was when such a row
  existed, and otherwise the store with the new row (user as buyer, seller as seller)
  appended. Both calls hand the id of the first such row to \<^verbatim>\<open>onMessage\<close>, and
  the second call, like every later one, writes nothing.
\<close>

theorem resolve_twice_same_id:
  assumes "me \<noteq> []"
    and "fault r1 = None" and "fault r2 = None" and "fault r3 = None" and "fault r4 = None"
    and "item_seller_id it' = item_seller_id it"
  shows "\<exists>c s1.
      find (is_dm me (item_seller_id it)) (conversations_tbl s1) = Some c
    \<and> c \<in> set (conversations_tbl s1) \<and> is_dm me (item_seller_id it) c
    \<and> (if list_ex (is_dm me (item_seller_id it)) (conversations_tbl s) then s1 = s
        else s1 = s\<lparr>conversations_tbl := conversations_tbl s @
               [\<lparr>conv_id = assigned_id r2, conv_created_at = server_now r2,
                 listing_id = Some (item_id it), buyer_id = me,
                 seller_id = item_seller_id it\<rparr>]\<rparr>)
    \<and> handleMessageSeller (Some me) it False r1 r2 s = ([OnMessage (conv_id c)], False, s1)
    \<and> handleMessageSeller (Some me) it' False r3 r4 s1 = ([OnMessage (conv_id c)], False, s1)"
proof -
  from resolved_row [OF assms(1-3), of it s] obtain c s1 where
    row: "find (is_dm me (item_seller_id it)) (conversations_tbl s1) = Some c"
    and st: "if list_ex (is_dm me (item_seller_id it)) (conversations_tbl s) then s1 = s
        else s1 = s\<lparr>conversations_tbl := conversations_tbl s @
               [\<lparr>conv_id = assigned_id r2, conv_created_at = server_now r2,
                 listing_id = Some (item_id it), buyer_id = me,
                 seller_id = item_seller_id it\<rparr>]\<rparr>"
    and first: "handleMessageSeller (Some me) it False r1 r2 s = ([OnMessage (conv_id c)], False, s1)"
    by blast
  from row have mem: "c \<in> set (conversations_tbl s1)" "is_dm me (item_seller_id it) c"
    by (auto simp: find_Some_iff)
  from row assms(6) have "find (is_dm me (item_seller_id it')) (conversations_tbl s1) = Some c"
    by simp
  from resolved_again [OF assms(1,4,5) this]
  have second: "handleMessageSeller (Some me) it' False r3 r4 s1 = ([OnMessage (conv_id c)], False, s1)" .
  from row mem st first second show ?thesis
    by blast
qed

theorem resolve_twice_same_id_witness:
  "handleMessageSeller (Some ''alice'') \<lparr>item_id = ''l1'', item_seller_id = ''bob''\<rparr> False
      \<lparr>fault = None, assigned_id = ''x'', server_now = 1\<rparr>
      \<lparr>fault = None, assigned_id = ''c1'', server_now = 2\<rparr>
      \<lparr>conversations_tbl = [], messages_tbl = []\<rparr>
     = ([OnMessage ''c1''], False,
        \<lparr>conversations_tbl =
           [\<lparr>conv_id = ''c1'', conv_created_at = 2, listing_id = Some ''l1'',
             buyer_id = ''alice'', seller_id = ''bob''\<rparr>],
         messages_tbl = []\<rparr>)
   \<and> handleMessageSeller (Some ''alice'') \<lparr>item_id = ''l2'', item_seller_id = ''bob''\<rparr> False
      \<lparr>fault = None, assigned_id = ''y'', server_now = 3\<rparr>
      \<lparr>fault = None, assigned_id = ''c2'', server_now = 4\<rparr>
      \<lparr>conversations_tbl =
           [\<lparr>conv_id = ''c1'', conv_created_at = 2, listing_id = Some ''l1'',
             buyer_id = ''alice'', seller_id = ''bob''\<rparr>],
         messages_tbl = []\<rparr>
     = ([OnMessage ''c1''], False,
        \<lparr>conversations_tbl =
           [\<lparr>conv_id = ''c1'', conv_created_at = 2, listing_id = Some ''l1'',
             buyer_id = ''alice'', seller_id = ''bob''\<rparr>],
         messages_tbl = []\<rparr>)"
  using resolve_twice_same_id [of "''alice''"
      "\<lparr>fault = None, assigned_id = ''x'', server_now = 1\<rparr>"
      "\<lparr>fault = None, assigned_id = ''c1'', server_now = 2\<rparr>"
      "\<lparr>fault = None, assigned_id = ''y'', server_now = 3\<rparr>"
      "\<lparr>fault = None, assigned_id = ''c2'', server_now = 4\<rparr>"
      "\<lparr>item_id = ''l2'', item_seller_id = ''bob''\<rparr>"
      "\<lparr>item_id = ''l1'', item_seller_id = ''bob''\<rparr>"
      "\<lparr>conversations_tbl = [], messages_tbl = []\<rparr>"]
  by auto

text \<open>
  C1: user \<open>x\<close> resolves the conversation with \<open>y\<close> from one of \<open>y\<close>'s listings, then
  \<open>y\<close> resolves the conversation with \<open>x\<close> from one of \<open>x\<close>'s listings, all requests
  succeeding. After the first call the store holds a row joining \<open>x\<close> and \<open>y\<close>, in
  one direction or the other: it is the store as it was when such a row existed, and
  otherwise the store with the new row (buyer \<open>x\<close>, seller \<open>y\<close>) appended. Both calls
  hand the id of the first such row to \<^verbatim>\<open>onMessage\<close>, and the second call, made with
  the roles swapped, writes nothing.
\<close>

theorem resolve_swapped_roles_same_id:
  assumes "x \<noteq> []" and "y \<noteq> []" and "x \<noteq> y"
    and "fault r1 = None" and "fault r2 = None" and "fault r3 = None" and "fault r4 = None"
    and "item_seller_id of_y = y" and "item_seller_id of_x = x"
  shows "\<exists>c s1.
      find (is_dm x y) (conversations_tbl s1) = Some c
    \<and> c \<in> set (conversations_tbl s1) \<and> is_dm x y c
    \<and> (if list_ex (is_dm x y) (conversations_tbl s) then s1 = s
        else s1 = s\<lparr>conversations_tbl := conversations_tbl s @
               [\<lparr>conv_id = assigned_id r2, conv_created_at = server_now r2,
                 listing_id = Some (item_id of_y), buyer_id = x, seller_id = y\<rparr>]\<rparr>)
    \<and> handleMessageSeller (Some x) of_y False r1 r2 s = ([OnMessage (conv_id c)], False, s1)
    \<and> handleMessageSeller (Some y) of_x False r3 r4 s1 = ([OnMessage (conv_id c)], False, s1)"
proof -
  from resolved_row [OF assms(1,4,5), of of_y s] assms(8) obtain c s1 where
    row: "find (is_dm x y) (conversations_tbl s1) = Some c"
    and st: "if list_ex (is_dm x y) (conversations_tbl s) then s1 = s
        else s1 = s\<lparr>conversations_tbl := conversations_tbl s @
               [\<lparr>conv_id = assigned_id r2, conv_created_at = server_now r2,
                 listing_id = Some (item_id of_y), buyer_id = x, seller_id = y\<rparr>]\<rparr>"
    and first: "handleMessageSeller (Some x) of_y False r1 r2 s = ([OnMessage (conv_id c)], False, s1)"
    by auto
  from row have mem: "c \<in> set (conversations_tbl s1)" "is_dm x y c"
    by (auto simp: find_Some_iff)
  from row assms(9) have "find (is_dm y (item_seller_id of_x)) (conversations_tbl s1) = Some c"
    by (simp add: is_dm_commute [of y x])
  from resolved_again [OF assms(2,6,7) this]
  have second: "handleMessageSeller (Some y) of_x False r3 r4 s1 = ([OnMessage (conv_id c)], False, s1)" .
  from row mem st first second show ?thesis
    by blast
qed

theorem resolve_swapped_roles_same_id_witness:
  "handleMessageSeller (Some ''alice'') \<lparr>item_id = ''l1'', item_seller_id = ''bob''\<rparr> False
      \<lparr>fault = None, assigned_id = ''x'', server_now = 1\<rparr>
      \<lparr>fault = None, assigned_id = ''c1'', server_now = 2\<rparr>
      \<lparr>conversations_tbl = [], messages_tbl = []\<rparr>
     = ([OnMessage ''c1''], False,
        \<lparr>conversations_tbl =
           [\<lparr>conv_id = ''c1'', conv_created_at = 2, listing_id = Some ''l1'',
             buyer_id = ''alice'', seller_id = ''bob''\<rparr>],
         messages_tbl = []\<rparr>)
   \<and> handleMessageSeller (Some ''bob'') \<lparr>item_id = ''l7'', item_seller_id = ''alice''\<rparr> False
      \<lparr>fault = None, assigned_id = ''y'', server_now = 3\<rparr>
      \<lparr>fault = None, assigned_id = ''c2'', server_now = 4\<rparr>
      \<lparr>conversations_tbl =
           [\<lparr>conv_id = ''c1'', conv_created_at = 2, listing_id = Some ''l1'',
             buyer_id = ''alice'', seller_id = ''bob''\<rparr>],
         messages_tbl = []\<rparr>
     = ([OnMessage ''c1''], False,
        \<lparr>conversations_tbl =
           [\<lparr>conv_id = ''c1'', conv_created_at = 2, listing_id = Some ''l1'',
             buyer_id = ''alice'', seller_id = ''bob''\<rparr>],
         messages_tbl = []\<rparr>)"
  using resolve_swapped_roles_same_id [of "''alice''" "''bob''"
      "\<lparr>fault = None, assigned_id = ''x'', server_now = 1\<rparr>"
      "\<lparr>fault = None, assigned_id = ''c1'', server_now = 2\<rparr>"
      "\<lparr>fault = None, assigned_id = ''y'', server_now = 3\<rparr>"
      "\<lparr>fault = None, assigned_id = ''c2'', server_now = 4\<rparr>"
      "\<lparr>item_id = ''l1'', item_seller_id = ''bob''\<rparr>"
      "\<lparr>item_id = ''l7'', item_seller_id = ''alice''\<rparr>"
      "\<lparr>conversations_tbl = [], messages_tbl = []\<rparr>"]
  by auto

section \<open>Facts about the grouping of conversations\<close>

lemma with_other_simps [simp]:
  "other_user_id (with_other r o') = o'" "conv_row.truncate (with_other r o') = r"
  "conv_id (with_other r o') = conv_id r" "buyer_id (with_other r o') = buyer_id r"
  "seller_id (with_other r o') = seller_id r" "conv_created_at (with_other r o') = conv_created_at r"
  by (simp_all add: with_other_def conv_row.defs conversation.defs)

lemma find_other_None:
  "find (\<lambda>c. other_user_id c = o') acc = None \<longleftrightarrow> o' \<notin> set (map other_user_id acc)"
  by (induction acc) auto

lemma foldl_group_step:
  "foldl (group_step uid) acc data =
     acc @ map (\<lambda>r. with_other r (other_of uid r)) (first_rows uid (map other_user_id acc) data)"
proof (induction data arbitrary: acc)
  case Nil
  then show ?case by simp
next
  case (Cons r rs)
  show ?case
  proof (cases "other_of uid r = uid \<or> other_of uid r \<in> set (map other_user_id acc)")
    case True
    then have "group_step uid acc r = acc"
      using find_other_None [of "other_of uid r" acc]
      by (auto simp: group_step_def Let_def split: option.splits)
    with True Cons show ?thesis by simp
  next
    case False
    then have "group_step uid acc r = acc @ [with_other r (other_of uid r)]"
      using find_other_None [of "other_of uid r" acc]
      by (auto simp: group_step_def Let_def split: option.splits)
    with False Cons show ?thesis by simp
  qed
qed

lemma grouped_first_rows:
  "grouped uid data = map (\<lambda>r. with_other r (other_of uid r)) (first_rows uid [] data)"
  by (simp add: grouped_def foldl_group_step)

lemma first_rows_subset: "set (first_rows uid seen data) \<subseteq> set data"
  by (induction data arbitrary: seen) auto

lemma first_rows_fresh:
  "r \<in> set (first_rows uid seen data) \<Longrightarrow> other_of uid r \<noteq> uid \<and> other_of uid r \<notin> set seen"
proof (induction data arbitrary: seen)
  case Nil
  then show ?case by simp
next
  case (Cons a data)
  show ?case
  proof (cases "other_of uid a = uid \<or> other_of uid a \<in> set seen")
    case True
    with Cons show ?thesis by auto
  next
    case False
    with Cons.prems have "r = a \<or> r \<in> set (first_rows uid (seen @ [other_of uid a]) data)"
      by auto
    then show ?thesis
    proof
      assume "r = a"
      with False show ?thesis by simp
    next
      assume "r \<in> set (first_rows uid (seen @ [other_of uid a]) data)"
      from Cons.IH [OF this] show ?thesis by simp
    qed
  qed
qed

lemma first_rows_distinct: "distinct (map (other_of uid) (first_rows uid seen data))"
  by (induction data arbitrary: seen) (auto dest: first_rows_fresh)

lemma first_rows_first:
  "r \<in> set (first_rows uid seen data) \<Longrightarrow>
     find (\<lambda>x. other_of uid x = other_of uid r) data = Some r"
  by (induction data arbitrary: seen) (auto split: if_splits dest: first_rows_fresh)

lemma first_rows_complete:
  "r \<in> set data \<Longrightarrow> other_of uid r \<noteq> uid \<Longrightarrow> other_of uid r \<notin> set seen \<Longrightarrow>
     other_of uid r \<in> other_of uid ` set (first_rows uid seen data)"
proof (induction data arbitrary: seen)
  case Nil
  then show ?case by simp
next
  case (Cons a data)
  show ?case
  proof (cases "other_of uid a = uid \<or> other_of uid a \<in> set seen")
    case True
    with Cons show ?thesis by auto
  next
    case False
    show ?thesis
    proof (cases "other_of uid r = other_of uid a")
      case True
      with False show ?thesis by simp
    next
      case neq: False
      with Cons.prems have "r \<in> set data" "other_of uid r \<notin> set (seen @ [other_of uid a])"
        by auto
      from Cons.IH [OF this(1) Cons.prems(2) this(2)] False show ?thesis
        by auto
    qed
  qed
qed


lemma find_first_is_newest:
  "find P xs = Some x \<Longrightarrow> sorted (rev (map f xs)) \<Longrightarrow> r \<in> set xs \<Longrightarrow> P r \<Longrightarrow> f r \<le> f x"
proof (induction xs)
  case Nil
  then show ?case by simp
next
  case (Cons a xs)
  from Cons.prems(2) have tail: "sorted (rev (map f xs))" and head: "\<forall>y \<in> set xs. f y \<le> f a"
    by (auto simp: sorted_append)
  show ?case
  proof (cases "P a")
    case True
    with Cons.prems(1) have "x = a" by simp
    with Cons.prems(3) head show ?thesis by auto
  next
    case False
    with Cons.prems have "find P xs = Some x" "r \<in> set xs" by auto
    with Cons.IH tail Cons.prems(4) show ?thesis by blast
  qed
qed

text \<open>
  What the reducer makes of any list of rows: one entry per other participant, none
  for the user, each entry the first row with its other participant, every other
  participant represented, and the entry kept the newest when the rows come newest
  first.
\<close>

lemma grouped_keeps_first_rows:
  "distinct (map other_user_id (grouped uid data))
   \<and> (\<forall>c \<in> set (grouped uid data).
        other_user_id c \<noteq> uid
        \<and> find (\<lambda>r. other_of uid r = other_user_id c) data = Some (conv_row.truncate c))
   \<and> (\<forall>r \<in> set data. other_of uid r \<noteq> uid \<longrightarrow>
        other_of uid r \<in> other_user_id ` set (grouped uid data))
   \<and> (sorted (rev (map conv_created_at data)) \<longrightarrow>
        (\<forall>c \<in> set (grouped uid data). \<forall>r \<in> set data.
           other_of uid r = other_user_id c \<longrightarrow> conv_created_at r \<le> conv_created_at c))"
proof -
  let ?kept = "first_rows uid [] data"
  have g: "grouped uid data = map (\<lambda>r. with_other r (other_of uid r)) ?kept"
    by (rule grouped_first_rows)
  have others: "map other_user_id (grouped uid data) = map (other_of uid) ?kept"
    by (simp add: g comp_def)
  have one: "distinct (map other_user_id (grouped uid data))"
    by (simp only: others first_rows_distinct)
  have first: "other_user_id c \<noteq> uid
      \<and> find (\<lambda>r. other_of uid r = other_user_id c) data = Some (conv_row.truncate c)"
    if "c \<in> set (grouped uid data)" for c
  proof -
    from that obtain r where r: "r \<in> set ?kept" "c = with_other r (other_of uid r)"
      by (auto simp: g)
    from first_rows_fresh [OF r(1)] first_rows_first [OF r(1)] r(2) show ?thesis
      by simp
  qed
  have all: "other_of uid r \<in> other_user_id ` set (grouped uid data)"
    if "r \<in> set data" "other_of uid r \<noteq> uid" for r
  proof -
    from first_rows_complete [OF that, of "[]"]
    have "other_of uid r \<in> set (map (other_of uid) ?kept)" by simp
    then show ?thesis by (simp only: others [symmetric]) simp
  qed
  have newest: "conv_created_at r \<le> conv_created_at c"
    if "sorted (rev (map conv_created_at data))" "c \<in> set (grouped uid data)"
       "r \<in> set data" "other_of uid r = other_user_id c" for c r
  proof -
    from first [OF that(2)]
    have "find (\<lambda>r. other_of uid r = other_user_id c) data = Some (conv_row.truncate c)"
      by simp
    from find_first_is_newest [OF this that(1) that(3) that(4)]
    show ?thesis by (simp add: conv_row.defs)
  qed
  from one first all newest show ?thesis
    by blast
qed

lemma newest_first_rows:
  assumes "select_conversations_newest_first r uid s = Inr data"
  shows "fault r = None"
    and "mset data = mset (filter (\<lambda>c. buyer_id c = uid \<or> seller_id c = uid) (conversations_tbl s))"
    and "sorted (rev (map conv_created_at data))"
  using assms
  by (auto simp: select_conversations_newest_first_def select_conversations_def rev_map [symmetric]
      split: option.splits sum.splits)


section \<open>Claims about the conversation list\<close>

text \<open>
  C10: let the store answer the query of \<^verbatim>\<open>fetchConversations\<close> with the rows
  \<open>data\<close>: the rows of the table in which the user is buyer or seller, newest first.
  The conversation list the view then holds is what the reducer makes of these rows. It
  has at most one entry per other user and no entry whose other participant is the
  user; each entry is the first row of the answer with that other participant, and no
  row of the answer with the same other participant is newer, so that duplicates of a
  pair are dropped in favour of the newest; and every other participant of a row of the
  answer has an entry.
\<close>

theorem conversation_list_one_entry_per_other_user:
  assumes "select_conversations_newest_first r uid s = Inr data"
  shows "conversations (fetchConversations r uid s v) = grouped uid data
   \<and> mset data = mset (filter (\<lambda>c. buyer_id c = uid \<or> seller_id c = uid) (conversations_tbl s))
   \<and> sorted (rev (map conv_created_at data))
   \<and> distinct (map other_user_id (conversations (fetchConversations r uid s v)))
   \<and> (\<forall>c \<in> set (conversations (fetchConversations r uid s v)).
        other_user_id c \<noteq> uid
        \<and> find (\<lambda>row. other_of uid row = other_user_id c) data = Some (conv_row.truncate c)
        \<and> (\<forall>row \<in> set data. other_of uid row = other_user_id c \<longrightarrow>
              conv_created_at row \<le> conv_created_at c))
   \<and> (\<forall>row \<in> set data. other_of uid row \<noteq> uid \<longrightarrow>
        other_of uid row \<in> other_user_id ` set (conversations (fetchConversations r uid s v)))"
proof -
  have list: "conversations (fetchConversations r uid s v) = grouped uid data"
    using assms by (simp add: fetchConversations_def)
  note rows = newest_first_rows [OF assms]
  from grouped_keeps_first_rows [of uid data] rows(2,3) show ?thesis
    unfolding list by blast
qed

theorem conversation_list_one_entry_per_other_user_witness:
  "select_conversations_newest_first ok_reply ''alice'' inbox_store = Inr inbox_rows
   \<and> map conv_id (conversations (fetchConversations ok_reply ''alice'' inbox_store initial_view))
       = [''c3'', ''c0'']
   \<and> map other_user_id (conversations (fetchConversations ok_reply ''alice'' inbox_store initial_view))
       = [''bob'', ''carol'']
   \<and> distinct (map other_user_id
        (conversations (fetchConversations ok_reply ''alice'' inbox_store initial_view)))"
proof -
  have answer: "select_conversations_newest_first ok_reply ''alice'' inbox_store = Inr inbox_rows"
    by (simp add: select_conversations_newest_first_def select_conversations_def ok_reply_def
        inbox_store_def inbox_rows_def)
  have ev: "grouped ''alice'' inbox_rows =
      [with_other (inbox_rows ! 0) ''bob'', with_other (inbox_rows ! 3) ''carol'']"
    by (simp add: inbox_rows_def grouped_def group_step_def other_of_def Let_def)
  from conversation_list_one_entry_per_other_user [OF answer, of initial_view] answer
  show ?thesis
    by (simp add: ev) (simp add: inbox_rows_def)
qed

section \<open>Facts about loading and sending\<close>

lemma mset_singleton_list: "mset xs = {#k#} \<Longrightarrow> xs = [k]"
  by (cases xs) auto

lemma sort_key_three:
  fixes f :: "'a \<Rightarrow> nat"
  assumes "mset xs = {#a, b, c#}" and "f a < f b" and "f b < f c"
  shows "sort_key f xs = [a, b, c]"
proof (rule properties_for_sort_key)
  show "mset [a, b, c] = mset xs"
    using assms(1) by simp
  show "sorted (map f [a, b, c])"
    using assms(2,3) by simp
  fix k assume k: "k \<in> set [a, b, c]"
  have "mset (filter (\<lambda>x. f k = f x) xs) = filter_mset (\<lambda>x. f k = f x) {#a, b, c#}"
    using assms(1) by (metis mset_filter)
  also have "\<dots> = {#k#}"
    using k assms(2,3) by auto
  finally have "filter (\<lambda>x. f k = f x) xs = [k]"
    by (rule mset_singleton_list)
  moreover have "filter (\<lambda>x. f k = f x) [a, b, c] = [k]"
    using k assms(2,3) by auto
  ultimately show "filter (\<lambda>x. f k = f x) [a, b, c] = filter (\<lambda>x. f k = f x) xs"
    by simp
qed

lemma trim_empty_iff: "trim txt = [] \<longleftrightarrow> list_all is_ws txt"
proof -
  have "trim txt = [] \<longleftrightarrow> dropWhile is_ws (rev (dropWhile is_ws txt)) = []"
    by (simp add: trim_def)
  also have "\<dots> \<longleftrightarrow> (\<forall>c \<in> set (dropWhile is_ws txt). is_ws c)"
    by (simp add: dropWhile_eq_Nil_conv)
  also have "\<dots> \<longleftrightarrow> dropWhile is_ws txt = []"
    by (metis hd_dropWhile hd_in_set empty_iff list.set(1))
  also have "\<dots> \<longleftrightarrow> list_all is_ws txt"
    by (simp add: dropWhile_eq_Nil_conv list_all_iff)
  finally show ?thesis .
qed

section \<open>Claims about loading and sending\<close>

text \<open>
  C5: when the request succeeds, \<^verbatim>\<open>fetchMessages\<close> sets the message list to the
  messages of the conversation, each exactly once, in ascending order of creation time;
  in particular, when the conversation holds three messages created at times
  \<open>t1 < t2 < t3\<close>, wherever they lie in the table, the list is these three in that
  order.
\<close>

theorem load_is_ascending:
  assumes "fault r = None"
  shows "sorted (map msg_created_at (messages (fetchMessages r c s v)))
   \<and> mset (messages (fetchMessages r c s v))
       = mset (filter (\<lambda>m. conversation_id m = c) (messages_tbl s))
   \<and> (\<forall>m1 m2 m3.
         mset (filter (\<lambda>m. conversation_id m = c) (messages_tbl s)) = {#m1, m2, m3#}
         \<and> msg_created_at m1 < msg_created_at m2 \<and> msg_created_at m2 < msg_created_at m3
         \<longrightarrow> messages (fetchMessages r c s v) = [m1, m2, m3])"
  using assms
  by (auto simp: fetchMessages_def select_messages_def sort_key_three)

theorem load_is_ascending_witness:
  "map msg_text (messages (fetchMessages \<lparr>fault = None, assigned_id = [], server_now = 0\<rparr>
      ''c1'' hello_store initial_view)) = [''hello'', ''hi'', ''ok'']
   \<and> sorted (map msg_created_at (messages (fetchMessages
        \<lparr>fault = None, assigned_id = [], server_now = 0\<rparr> ''c1'' hello_store initial_view)))"
proof -
  have ev: "map msg_text (messages (fetchMessages \<lparr>fault = None, assigned_id = [], server_now = 0\<rparr>
      ''c1'' hello_store initial_view)) = [''hello'', ''hi'', ''ok'']"
    by (simp add: fetchMessages_def select_messages_def hello_store_def)
  from load_is_ascending [of "\<lparr>fault = None, assigned_id = [], server_now = 0\<rparr>"
      "''c1''" hello_store initial_view] ev
  show ?thesis by simp
qed

text \<open>
  C6, as stated: a send whose trimmed text is empty is rejected with an EmptyMessage
  error. The handler returns at its guard like any other return: with three blanks in
  the input field the call does not end in an error.
\<close>

theorem blank_send_is_not_rejected:
  "\<not> isl (handleSendMessage (Some ''alice'') \<lparr>fault = None, assigned_id = ''m4'', server_now = 10\<rparr>
            (chat_view\<lparr>inputValue := ''   ''\<rparr>) hello_store)"
  by (simp add: handleSendMessage_def trim_def is_ws_def)

text \<open>
  C6, amended: the trimmed text is empty exactly when the input consists of white space
  only. In that case \<^verbatim>\<open>handleSendMessage\<close> returns normally and changes neither the
  store nor the view (not even the input field). When the trimmed text is not empty, a
  conversation is selected, a user is signed in and the request succeeds, it appends
  one message with the trimmed text, the selected conversation and the user as sender,
  clears the input field and returns, leaving the message list of the view as it was.
\<close>

theorem send_ignores_blank_and_inserts_trimmed:
  "(trim (inputValue v) = [] \<longleftrightarrow> list_all is_ws (inputValue v))
   \<and> (trim (inputValue v) = [] \<longrightarrow> handleSendMessage me r v s = Inr (v, s))
   \<and> (trim (inputValue v) \<noteq> [] \<and> selectedConversation v = Some sel \<and> me = Some u \<and> u \<noteq> []
        \<and> fault r = None \<longrightarrow>
        handleSendMessage me r v s =
          Inr (v\<lparr>inputValue := []\<rparr>,
               s\<lparr>messages_tbl := messages_tbl s @
                  [\<lparr>msg_id = assigned_id r, msg_created_at = server_now r,
                    conversation_id = conv_id sel, sender_id = u,
                    msg_text = trim (inputValue v)\<rparr>]\<rparr>))"
  by (simp add: trim_empty_iff [symmetric] handleSendMessage_def insert_message_def)

theorem send_ignores_blank_and_inserts_trimmed_witness:
  "handleSendMessage (Some ''alice'') \<lparr>fault = None, assigned_id = ''m4'', server_now = 10\<rparr>
      (chat_view\<lparr>inputValue := ''  ''\<rparr>) hello_store
     = Inr (chat_view\<lparr>inputValue := ''  ''\<rparr>, hello_store)
   \<and> handleSendMessage (Some ''alice'') \<lparr>fault = None, assigned_id = ''m4'', server_now = 10\<rparr>
      (chat_view\<lparr>inputValue := '' see you ''\<rparr>) hello_store
     = Inr (chat_view\<lparr>inputValue := []\<rparr>,
            hello_store\<lparr>messages_tbl := messages_tbl hello_store @
               [\<lparr>msg_id = ''m4'', msg_created_at = 10, conversation_id = ''c1'',
                 sender_id = ''alice'', msg_text = ''see you''\<rparr>]\<rparr>)"
proof -
  have blank: "trim (inputValue (chat_view\<lparr>inputValue := ''  ''\<rparr>)) = []"
    by (simp add: trim_def is_ws_def)
  have trimmed: "trim (inputValue (chat_view\<lparr>inputValue := '' see you ''\<rparr>)) = ''see you''"
    by (simp add: trim_def is_ws_def)
  have sel: "selectedConversation (chat_view\<lparr>inputValue := '' see you ''\<rparr>)
      = Some (with_other (hd (conversations_tbl hello_store)) ''bob'')"
    by (simp add: chat_view_def)
  have cid: "conv_id (with_other (hd (conversations_tbl hello_store)) ''bob'') = ''c1''"
    by (simp add: hello_store_def with_other_def conv_row.defs)
  from send_ignores_blank_and_inserts_trimmed
         [of "chat_view\<lparr>inputValue := ''  ''\<rparr>" "Some ''alice''"
             "\<lparr>fault = None, assigned_id = ''m4'', server_now = 10\<rparr>" hello_store]
       send_ignores_blank_and_inserts_trimmed
         [of "chat_view\<lparr>inputValue := '' see you ''\<rparr>" "Some ''alice''"
             "\<lparr>fault = None, assigned_id = ''m4'', server_now = 10\<rparr>" hello_store
             "with_other (hd (conversations_tbl hello_store)) ''bob''" "''alice''"]
       blank trimmed sel cid
  show ?thesis by simp
qed

section \<open>Facts about the mounted component\<close>

lemma run_cleanup_keeps [simp]:
  "ui (run_cleanup p) = ui p" "db (run_cleanup p) = db p"
  "next_channel (run_cleanup p) = next_channel p" "loads (run_cleanup p) = loads p"
  by (simp_all add: run_cleanup_def split: option.splits)

lemma subscription_effect_keeps [simp]:
  "ui (subscription_effect p) = ui p" "db (subscription_effect p) = db p"
  by (simp_all add: subscription_effect_def split: option.splits)

lemma setSelectedConversation_ui [simp]:
  "(same \<longrightarrow> selectedConversation (ui p) = next) \<Longrightarrow>
     ui (setSelectedConversation same next p) = (ui p)\<lparr>selectedConversation := next\<rparr>"
  "db (setSelectedConversation same next p) = db p"
  by (auto simp: setSelectedConversation_def)

lemma select_chat_ui [simp]:
  "ui (select_chat fresh chat p) = (ui p)\<lparr>selectedConversation := Some chat\<rparr>"
  "db (select_chat fresh chat p) = db p"
  by (simp_all add: select_chat_def)

lemma initial_effect_messages [simp]:
  "messages (ui (initial_effect init fresh p)) = messages (ui p)"
  "conversations (ui (initial_effect init fresh p)) = conversations (ui p)"
  "db (initial_effect init fresh p) = db p"
  by (cases init; simp split: option.splits)+

lemma mount_effect_messages [simp]:
  "messages (ui (mount_effect me r p)) = messages (ui p)"
  "selectedConversation (ui (mount_effect me r p)) = selectedConversation (ui p)"
  "db (mount_effect me r p) = db p" "channels (mount_effect me r p) = channels p"
  "cleanup (mount_effect me r p) = cleanup p" "next_channel (mount_effect me r p) = next_channel p"
  by (cases me; simp add: fetchConversations_def split: sum.splits)+

lemma handleSendMessage_view:
  "handleSendMessage me r v s = Inr (v', s') \<Longrightarrow>
     messages v' = messages v \<and> conversations v' = conversations v
     \<and> selectedConversation v' = selectedConversation v"
  by (auto simp: handleSendMessage_def split: if_splits option.splits)

lemma handleSendMessage_returns: "\<exists>v' s'. handleSendMessage me r v s = Inr (v', s')"
  by (auto simp: handleSendMessage_def split: option.splits)

lemma on_insert_distinct:
  "distinct (map msg_id (messages v)) \<Longrightarrow> distinct (map msg_id (messages (on_insert m v)))"
  by (auto simp: on_insert_def list_ex_iff)

lemma on_insert_present:
  "list_ex (\<lambda>x. msg_id x = msg_id m) (messages (on_insert m v))"
  by (auto simp: on_insert_def list_ex_iff)

lemma on_insert_known:
  "list_ex (\<lambda>x. msg_id x = msg_id m) (messages v) \<Longrightarrow> on_insert m v = v"
  by (simp add: on_insert_def)

lemma dispatch_distinct:
  "distinct (map msg_id (messages v)) \<Longrightarrow>
     distinct (map msg_id (messages (foldl (\<lambda>v ch. on_insert m v) v chs)))"
  by (induction chs arbitrary: v) (simp_all add: on_insert_distinct)

lemma dispatch_known:
  "list_ex (\<lambda>x. msg_id x = msg_id m) (messages v) \<Longrightarrow> foldl (\<lambda>v ch. on_insert m v) v chs = v"
  by (induction chs) (simp_all add: on_insert_known)

lemma dispatch_present:
  "chs \<noteq> [] \<Longrightarrow> list_ex (\<lambda>x. msg_id x = msg_id m) (messages (foldl (\<lambda>v ch. on_insert m v) v chs))"
proof (cases chs)
  case Nil
  then show "chs \<noteq> [] \<Longrightarrow> ?thesis" by simp
next
  case (Cons ch rest)
  have "foldl (\<lambda>v ch. on_insert m v) (on_insert m v) rest = on_insert m v"
    by (rule dispatch_known) (rule on_insert_present)
  with Cons show ?thesis by (simp add: on_insert_present)
qed

lemma select_messages_distinct:
  assumes "distinct (map msg_id (messages_tbl snap))"
    and "select_messages r c snap = Inr data"
  shows "distinct (map msg_id data)"
proof -
  let ?rows = "filter (\<lambda>m. conversation_id m = c) (messages_tbl snap)"
  from assms(2) have data: "data = sort_key msg_created_at ?rows"
    by (auto simp: select_messages_def split: option.splits)
  from assms(1) have "distinct (map msg_id ?rows)"
    by (rule distinct_map_filter)
  moreover have "mset (map msg_id data) = mset (map msg_id ?rows)"
    by (simp add: data)
  ultimately show ?thesis
    using mset_eq_imp_distinct_iff by blast
qed

lemma fetchMessages_distinct:
  assumes "distinct (map msg_id (messages_tbl snap))" and "distinct (map msg_id (messages v))"
  shows "distinct (map msg_id (messages (fetchMessages r c snap v)))"
  using assms select_messages_distinct [of snap r c]
  by (auto simp: fetchMessages_def split: sum.splits)

lemma step_distinct:
  assumes "keyed e" and "distinct (map msg_id (messages (ui p)))"
  shows "distinct (map msg_id (messages (ui (step me p e))))"
proof (cases e)
  case (Send r)
  obtain v' s' where "handleSendMessage me r (ui p) (db p) = Inr (v', s')"
    using handleSendMessage_returns by blast
  with Send assms(2) handleSendMessage_view [OF this] show ?thesis by simp
next
  case (Loaded r snap)
  with assms show ?thesis
    by (simp add: fetchMessages_distinct split: list.splits)
next
  case (Push m)
  with assms(2) show ?thesis by (simp add: dispatch_distinct)
qed (use assms(2) in \<open>simp_all add: initial_view_def\<close>)

lemma run_distinct:
  assumes "list_all keyed evs" and "distinct (map msg_id (messages (ui p)))"
  shows "distinct (map msg_id (messages (ui (run me p evs))))"
  using assms unfolding run_def
  by (induction evs arbitrary: p) (simp_all add: step_distinct)

lemma shown_once:
  "distinct (map f xs) \<Longrightarrow> list_ex (\<lambda>x. f x = k) xs \<Longrightarrow> length (filter (\<lambda>x. f x = k) xs) = 1"
proof (induction xs)
  case Nil
  then show ?case by simp
next
  case (Cons a xs)
  show ?case
  proof (cases "f a = k")
    case True
    from Cons.prems(1) have "f a \<notin> f ` set xs"
      by simp
    with True have "\<forall>x \<in> set xs. f x \<noteq> k"
      by (metis imageI)
    then have "filter (\<lambda>x. f x = k) xs = []"
      by (simp add: filter_empty_conv)
    with True show ?thesis by simp
  next
    case False
    with Cons show ?thesis by simp
  qed
qed

lemma grouped_rows:
  "c \<in> set (grouped u data) \<Longrightarrow> \<exists>r \<in> set data. c = with_other r (other_of u r)"
  using first_rows_subset [of u "[]" data] by (auto simp: grouped_first_rows)

lemma select_conversations_newest_first_rows:
  assumes "select_conversations_newest_first r u s = Inr data" and "row \<in> set data"
  shows "buyer_id row = u \<or> seller_id row = u"
  using assms
  by (auto simp: select_conversations_newest_first_def select_conversations_def
      split: option.splits sum.splits)

lemma fetchConversations_fetched_for:
  assumes "u \<noteq> []" and "fetched_for (Some u) v"
  shows "fetched_for (Some u) (fetchConversations r u s v)"
proof (cases "select_conversations_newest_first r u s")
  case (Inl e)
  with assms(2) show ?thesis
    by (simp add: fetchConversations_def fetched_for_def)
next
  case (Inr data)
  have "participant (Some u) c" if "c \<in> set (grouped u data)" for c
  proof -
    from grouped_rows [OF that] obtain row where row: "row \<in> set data" "c = with_other row (other_of u row)"
      by blast
    from select_conversations_newest_first_rows [OF Inr row(1)] row(2) assms(1)
    show ?thesis by auto
  qed
  with Inr assms(2) show ?thesis
    by (simp add: fetchConversations_def fetched_for_def list_all_iff)
qed

lemma step_fetched_for:
  assumes "fetched_for me (ui p)"
  shows "fetched_for me (ui (step me p e))"
proof (cases e)
  case (Mount r)
  show ?thesis
  proof (cases me)
    case None
    with Mount assms show ?thesis by (simp add: fetched_for_def)
  next
    case (Some u)
    show ?thesis
    proof (cases "u = []")
      case True
      with Mount Some assms show ?thesis by (simp add: fetched_for_def)
    next
      case False
      with Mount Some assms show ?thesis by (simp add: fetchConversations_fetched_for)
    qed
  qed
next
  case (InitialConversation init fresh)
  show ?thesis
  proof (cases init)
    case None
    with InitialConversation assms show ?thesis by simp
  next
    case (Some i)
    show ?thesis
    proof (cases "find (\<lambda>c. conv_id c = i) (conversations (ui p))")
      case None
      with InitialConversation Some assms show ?thesis by simp
    next
      case found: (Some match)
      then have "match \<in> set (conversations (ui p))"
        by (auto simp: find_Some_iff)
      with assms have "participant me match"
        by (simp add: fetched_for_def list_all_iff)
      with InitialConversation Some found assms show ?thesis
        by (simp add: fetched_for_def)
    qed
  qed
next
  case (ClickChat i fresh)
  show ?thesis
  proof (cases "i < length (conversations (ui p))")
    case True
    with assms have "participant me (conversations (ui p) ! i)"
      by (simp add: fetched_for_def list_all_length)
    with ClickChat True assms show ?thesis
      by (simp add: fetched_for_def)
  next
    case False
    with ClickChat assms show ?thesis by simp
  qed
next
  case Back
  with assms show ?thesis by (simp add: fetched_for_def)
next
  case (Typed input)
  with assms show ?thesis by (simp add: fetched_for_def)
next
  case (Send r)
  obtain v' s' where out: "handleSendMessage me r (ui p) (db p) = Inr (v', s')"
    using handleSendMessage_returns by blast
  from handleSendMessage_view [OF out] Send out assms show ?thesis
    by (simp add: fetched_for_def)
next
  case (Loaded r snap)
  with assms show ?thesis
    by (simp add: fetched_for_def fetchMessages_def split: list.splits sum.splits)
next
  case (Push m)
  have "conversations (foldl (\<lambda>v ch. on_insert m v) v chs) = conversations v
      \<and> selectedConversation (foldl (\<lambda>v ch. on_insert m v) v chs) = selectedConversation v"
    for v and chs :: "(nat \<times> uuid) list"
    by (induction chs arbitrary: v) (simp_all add: on_insert_def)
  with Push assms show ?thesis by (simp add: fetched_for_def)
next
  case (Server s)
  with assms show ?thesis by simp
next
  case Unmount
  then show ?thesis by (simp add: fetched_for_def initial_view_def)
qed

lemma run_fetched_for:
  "fetched_for me (ui p) \<Longrightarrow> fetched_for me (ui (run me p evs))"
  unfolding run_def by (induction evs arbitrary: p) (simp_all add: step_fetched_for)

lemma setSelectedConversation_wired:
  "wired p \<Longrightarrow> wired (setSelectedConversation same next p)"
  by (auto simp: wired_def setSelectedConversation_def run_cleanup_def subscription_effect_def
      split: option.splits)

lemma setSelectedConversation_retired:
  "retired h p \<Longrightarrow> retired h (setSelectedConversation same next p)"
  by (auto simp: retired_def setSelectedConversation_def run_cleanup_def subscription_effect_def
      split: option.splits)

lemma initial_effect_wired: "wired p \<Longrightarrow> wired (initial_effect init fresh p)"
  by (cases init)
     (simp_all add: select_chat_def setSelectedConversation_wired split: option.splits)

lemma initial_effect_retired: "retired h p \<Longrightarrow> retired h (initial_effect init fresh p)"
  by (cases init)
     (simp_all add: select_chat_def setSelectedConversation_retired split: option.splits)

lemma dispatch_selected:
  "selectedConversation (foldl (\<lambda>v ch. on_insert m v) v chs) = selectedConversation v"
  by (induction chs arbitrary: v) (simp_all add: on_insert_def)

lemma step_wired:
  assumes "wired p"
  shows "wired (step me p e)"
proof (cases e)
  case (Mount r)
  with assms show ?thesis by (simp add: wired_def split: option.splits)
next
  case (InitialConversation init fresh)
  with assms show ?thesis by (simp add: initial_effect_wired)
next
  case (ClickChat i fresh)
  with assms show ?thesis by (simp add: select_chat_def setSelectedConversation_wired)
next
  case Back
  with assms show ?thesis by (simp add: setSelectedConversation_wired)
next
  case (Typed input)
  with assms show ?thesis by (simp add: wired_def split: option.splits)
next
  case (Send r)
  obtain v' s' where out: "handleSendMessage me r (ui p) (db p) = Inr (v', s')"
    using handleSendMessage_returns by blast
  from handleSendMessage_view [OF out] Send out assms show ?thesis
    by (simp add: wired_def split: option.splits)
next
  case (Loaded r snap)
  with assms show ?thesis
    by (simp add: wired_def fetchMessages_def split: list.splits sum.splits option.splits)
next
  case (Push m)
  with assms show ?thesis by (simp add: wired_def dispatch_selected split: option.splits)
next
  case (Server s)
  with assms show ?thesis by (simp add: wired_def split: option.splits)
next
  case Unmount
  with assms show ?thesis
    by (auto simp: wired_def run_cleanup_def initial_view_def split: option.splits)
qed

lemma step_retired:
  assumes "retired h p"
  shows "retired h (step me p e)"
proof (cases e)
  case (Mount r)
  with assms show ?thesis by (simp add: retired_def)
next
  case (InitialConversation init fresh)
  with assms show ?thesis by (simp add: initial_effect_retired)
next
  case (ClickChat i fresh)
  with assms show ?thesis by (simp add: select_chat_def setSelectedConversation_retired)
next
  case Back
  with assms show ?thesis by (simp add: setSelectedConversation_retired)
next
  case (Send r)
  obtain v' s' where out: "handleSendMessage me r (ui p) (db p) = Inr (v', s')"
    using handleSendMessage_returns by blast
  with Send assms show ?thesis by (simp add: retired_def)
next
  case (Loaded r snap)
  with assms show ?thesis by (simp add: retired_def split: list.splits)
next
  case Unmount
  with assms show ?thesis
    by (auto simp: retired_def run_cleanup_def split: option.splits)
qed (use assms in \<open>simp_all add: retired_def\<close>)

lemma run_wired: "wired p \<Longrightarrow> wired (run me p evs)"
  unfolding run_def by (induction evs arbitrary: p) (simp_all add: step_wired)

lemma run_retired: "retired h p \<Longrightarrow> retired h (run me p evs)"
  unfolding run_def by (induction evs arbitrary: p) (simp_all add: step_retired)

lemma targets_subset: "set (targets chans m) \<subseteq> set chans"
  by (auto simp: targets_def)

lemma chat_run: "run (Some ''alice'') (initial_page hello_store) chat_events = chat_page"
  by code_simp

text \<open>
  What the subscription callback does guarantee, over any sequence of events whose
  loads respect the primary key: the message list never holds an id twice; right after
  an INSERT event has reached a subscribed channel the list holds its id exactly once;
  an event whose id is already listed changes nothing; and one event invokes the
  callback at most once.
\<close>

lemma message_ids_stay_distinct:
  assumes "list_all keyed evs"
  shows "distinct (map msg_id (messages (ui (run me (initial_page s0) evs))))
   \<and> (targets (channels (run me (initial_page s0) evs)) m \<noteq> [] \<longrightarrow>
        length (filter (\<lambda>x. msg_id x = msg_id m)
                 (messages (ui (step me (run me (initial_page s0) evs) (Push m))))) = 1)
   \<and> (list_ex (\<lambda>x. msg_id x = msg_id m) (messages (ui (run me (initial_page s0) evs))) \<longrightarrow>
        step me (run me (initial_page s0) evs) (Push m) = run me (initial_page s0) evs)
   \<and> length (targets (channels (run me (initial_page s0) evs)) m) \<le> 1"
proof -
  let ?p = "run me (initial_page s0) evs"
  have "wired (initial_page s0)"
    by (simp add: wired_def initial_page_def initial_view_def)
  then have "wired ?p"
    by (rule run_wired)
  then have "length (channels ?p) \<le> 1"
    by (auto simp: wired_def split: option.splits)
  then have one: "length (targets (channels ?p) m) \<le> 1"
    unfolding targets_def using length_filter_le le_trans by blast
  have d: "distinct (map msg_id (messages (ui ?p)))"
    using assms by (rule run_distinct) (simp add: initial_page_def initial_view_def)
  have once: "length (filter (\<lambda>x. msg_id x = msg_id m) (messages (ui (step me ?p (Push m))))) = 1"
    if "targets (channels ?p) m \<noteq> []"
  proof (rule shown_once)
    show "distinct (map msg_id (messages (ui (step me ?p (Push m)))))"
      using d by (simp add: dispatch_distinct)
    show "list_ex (\<lambda>x. msg_id x = msg_id m) (messages (ui (step me ?p (Push m))))"
      using that by (simp add: dispatch_present)
  qed
  have again: "step me ?p (Push m) = ?p"
    if "list_ex (\<lambda>x. msg_id x = msg_id m) (messages (ui ?p))"
    using that by (simp add: dispatch_known)
  from d once again one show ?thesis by blast
qed

section \<open>Claims about the live message list\<close>

text \<open>
  C4: a subscriber attached to a conversation before the send must observe the sent
  message exactly once, although load and push may race. The callback of the
  subscription merges an event into the list and discards an id it already holds, but
  the answer of a load replaces the list. On the run below the subscription is made
  before the send and stays; the send stores the message; the push arrives and the
  list shows the message, once; then the load requested on opening is answered from
  the store as it was before the send, and the list is the three older messages: the
  sent message is in the store and not in the list, and no load is open that could
  bring it back.
\<close>

theorem stale_load_drops_sent_message:
  "list_all keyed stale_load_events
   \<and> channels (run (Some ''alice'') (initial_page hello_store) (take 2 sending_events))
       = [(0, ''c1'')]
   \<and> messages_tbl (db (run (Some ''alice'') (initial_page hello_store) sending_events))
       = messages_tbl hello_store @ [sent_message]
   \<and> messages (ui (run (Some ''alice'') (initial_page hello_store)
        (sending_events @ [Push sent_message]))) = [sent_message]
   \<and> map msg_id (messages (ui (run (Some ''alice'') (initial_page hello_store) stale_load_events)))
       = [''m1'', ''m2'', ''m3'']
   \<and> \<not> list_ex (\<lambda>m. msg_id m = msg_id sent_message)
         (messages (ui (run (Some ''alice'') (initial_page hello_store) stale_load_events)))
   \<and> list_ex (\<lambda>m. m = sent_message)
         (messages_tbl (db (run (Some ''alice'') (initial_page hello_store) stale_load_events)))
   \<and> channels (run (Some ''alice'') (initial_page hello_store) stale_load_events) = [(0, ''c1'')]
   \<and> loads (run (Some ''alice'') (initial_page hello_store) stale_load_events) = []"
  by code_simp

section \<open>Claims about the sender of a message\<close>

text \<open>
  C9: take a mounted component with a fixed session and any sequence of events (the
  store may be changed by other clients in between in any way), and let the user send.
  Either the store's tables are left as they were, or exactly one message is appended
  to the messages table: its conversation is the selected one, its sender is the
  signed-in user, and that user is the buyer or the seller of the selected
  conversation as it was fetched.
\<close>

theorem sent_message_sender_is_participant:
  "db (step me (run me (initial_page s0) evs) (Send r)) = db (run me (initial_page s0) evs)
   \<or> (\<exists>sel u m. me = Some u
         \<and> selectedConversation (ui (run me (initial_page s0) evs)) = Some sel
         \<and> db (step me (run me (initial_page s0) evs) (Send r))
             = (db (run me (initial_page s0) evs))
                 \<lparr>messages_tbl := messages_tbl (db (run me (initial_page s0) evs)) @ [m]\<rparr>
         \<and> conversation_id m = conv_id sel
         \<and> sender_id m = u
         \<and> (sender_id m = buyer_id sel \<or> sender_id m = seller_id sel))"
proof -
  let ?p = "run me (initial_page s0) evs"
  have inv: "fetched_for me (ui ?p)"
    by (rule run_fetched_for) (simp add: initial_page_def initial_view_def fetched_for_def)
  show ?thesis
  proof (cases "trim (inputValue (ui ?p)) = [] \<or> selectedConversation (ui ?p) = None \<or> falsy me \<or> fault r \<noteq> None")
    case True
    then have "db (step me ?p (Send r)) = db ?p"
      by (auto simp: handleSendMessage_def insert_message_def split: option.splits)
    then show ?thesis by simp
  next
    case False
    then obtain sel u where su: "selectedConversation (ui ?p) = Some sel" "me = Some u" "u \<noteq> []"
      by (cases me; cases "selectedConversation (ui ?p)") auto
    with inv have part: "buyer_id sel = u \<or> seller_id sel = u"
      by (simp add: fetched_for_def)
    let ?m = "\<lparr>msg_id = assigned_id r, msg_created_at = server_now r,
               conversation_id = conv_id sel, sender_id = u,
               msg_text = trim (inputValue (ui ?p))\<rparr>"
    from False su have "db (step me ?p (Send r)) = (db ?p)\<lparr>messages_tbl := messages_tbl (db ?p) @ [?m]\<rparr>"
      by (auto simp: handleSendMessage_def insert_message_def)
    with su part show ?thesis
      by (intro disjI2 exI [of _ sel] exI [of _ u] exI [of _ ?m]) auto
  qed
qed

theorem sent_message_sender_is_participant_witness:
  "db (step (Some ''alice'')
         (run (Some ''alice'') (initial_page hello_store) (chat_events @ [Typed '' thanks '']))
         (Send ok_reply))
     = hello_store\<lparr>messages_tbl := messages_tbl hello_store @
         [\<lparr>msg_id = ''m4'', msg_created_at = 10, conversation_id = ''c1'',
           sender_id = ''alice'', msg_text = ''thanks''\<rparr>]\<rparr>
   \<and> db (step (Some ''alice'')
         (run (Some ''alice'') (initial_page hello_store) (chat_events @ [Typed '' thanks '']))
         (Send ok_reply))
     \<noteq> db (run (Some ''alice'') (initial_page hello_store) (chat_events @ [Typed '' thanks '']))"
proof -
  have r: "run (Some ''alice'') (initial_page hello_store) (chat_events @ [Typed '' thanks ''])
      = chat_page\<lparr>ui := (ui chat_page)\<lparr>inputValue := '' thanks ''\<rparr>\<rparr>"
    using chat_run by (simp add: run_def)
  have s: "db (step (Some ''alice'') (chat_page\<lparr>ui := (ui chat_page)\<lparr>inputValue := '' thanks ''\<rparr>\<rparr>)
              (Send ok_reply))
     = hello_store\<lparr>messages_tbl := messages_tbl hello_store @
         [\<lparr>msg_id = ''m4'', msg_created_at = 10, conversation_id = ''c1'',
           sender_id = ''alice'', msg_text = ''thanks''\<rparr>]\<rparr>"
    by code_simp
  from sent_message_sender_is_participant
         [of "Some ''alice''" hello_store "chat_events @ [Typed '' thanks '']" ok_reply] r s
  show ?thesis
    by (simp add: chat_page_def) (simp add: hello_store_def)
qed

section \<open>Claims about the subscription\<close>

text \<open>
  C7: take a mounted component after any sequence of events, with a subscription
  \<open>h\<close> whose clean-up is pending, and let the conversation view close (the back
  button, or the component unmounting). Then no channel of the component is registered
  any more; an INSERT event for any message, whoever sent it, invokes no callback and
  leaves the component as it is; and whatever happens afterwards, also when the same
  conversation is opened again, the channel \<open>h\<close> is never again among the channels an
  event is dispatched to.
\<close>

theorem released_subscription_stays_silent:
  assumes "p = run me (initial_page s0) evs"
    and "cleanup p = Some h"
    and "closing = Back \<or> closing = Unmount"
    and "q = step me p closing"
  shows "channels q = []
       \<and> step me q (Push m) = q
       \<and> h \<notin> fst ` set (targets (channels (run me q evs')) m')"
proof -
  have "wired (initial_page s0)"
    by (simp add: wired_def initial_page_def initial_view_def)
  then have "wired p"
    unfolding assms(1) by (rule run_wired)
  with assms(2) obtain sel where sel: "selectedConversation (ui p) = Some sel"
      and chans: "channels p = [(h, conv_id sel)]" and h: "h < next_channel p"
    by (auto simp: wired_def split: option.splits)
  have closed: "channels q = [] \<and> next_channel q = next_channel p"
    using assms(3)
  proof
    assume "closing = Back"
    with assms(2,4) sel chans show ?thesis
      by (simp add: setSelectedConversation_def run_cleanup_def subscription_effect_def)
  next
    assume "closing = Unmount"
    with assms(2,4) chans show ?thesis
      by (simp add: run_cleanup_def)
  qed
  then have "targets (channels q) m = []"
    by (simp add: targets_def)
  then have silent: "step me q (Push m) = q"
    by simp
  from closed h have "retired h q"
    by (simp add: retired_def)
  then have "retired h (run me q evs')"
    by (rule run_retired)
  then have "h \<notin> fst ` set (targets (channels (run me q evs')) m')"
    using targets_subset [of "channels (run me q evs')" m'] by (auto simp: retired_def)
  with closed silent show ?thesis
    by simp
qed

theorem released_subscription_stays_silent_witness:
  "cleanup chat_page = Some 0
   \<and> channels (step (Some ''alice'') chat_page Back) = []
   \<and> step (Some ''alice'') (step (Some ''alice'') chat_page Back) (Push late_message)
       = step (Some ''alice'') chat_page Back
   \<and> channels (run (Some ''alice'') (step (Some ''alice'') chat_page Back) [ClickChat 0 True])
       = [(1, ''c1'')]
   \<and> 0 \<notin> fst ` set (targets
        (channels (run (Some ''alice'') (step (Some ''alice'') chat_page Back) [ClickChat 0 True]))
        late_message)"
proof -
  have c: "cleanup chat_page = Some 0"
    by (simp add: chat_page_def)
  have again: "channels (run (Some ''alice'') (step (Some ''alice'') chat_page Back) [ClickChat 0 True])
       = [(1, ''c1'')]"
    by code_simp
  from released_subscription_stays_silent
         [OF chat_run [symmetric] c disjI1 [OF refl] refl, of late_message "[ClickChat 0 True]" late_message]
       c again
  show ?thesis by blast
qed

end
